theory Spec2Isabelle
  imports Complex_Main
begin

section \<open>Numeric conventions\<close>

text \<open>
  The Python sources compute with IEEE floating-point arrays (numpy, torch). The embedding
  uses the real numbers for them: a comparison, a maximum and a sum mean what they mean
  on the reals, and rounding is not modelled. A Python exception is a value of
  \<open>py_error\<close>; the float \<open>-inf\<close> that the matcher starts from is \<open>None\<close> of a
  \<open>real option\<close>. A 0/1 flag array of numpy is a list of reals holding 0 and 1.
\<close>

datatype py_error = IndexError | ValueError | KeyError

type_synonym box = "real \<times> real \<times> real \<times> real"

definition bx1 :: "box \<Rightarrow> real" where "bx1 b = fst b"
definition by1 :: "box \<Rightarrow> real" where "by1 b = fst (snd b)"
definition bx2 :: "box \<Rightarrow> real" where "bx2 b = fst (snd (snd b))"
definition by2 :: "box \<Rightarrow> real" where "by2 b = snd (snd (snd b))"

section \<open>Detection matcher: \<open>tp_and_fp_of_detection\<close> (data_obj_detect.py)\<close>

text \<open>
  One entry of \<open>overlaps = inters / uni\<close>: the intersection over union of detection
  \<open>d\<close> and ground-truth box \<open>g\<close>, with the pixel-inclusive \<open>+ 1.0\<close> on every side
  length. Where \<open>uni\<close> is zero numpy yields a non-finite value and HOL yields 0; boxes with
  \<open>x2 \<ge> x1\<close> and \<open>y2 \<ge> y1\<close> have \<open>uni \<ge> 1\<close>.
\<close>

definition overlap :: "box \<Rightarrow> box \<Rightarrow> real" where
  "overlap d g =
     (let ixmin = max (bx1 g) (bx1 d);
          iymin = max (by1 g) (by1 d);
          ixmax = min (bx2 g) (bx2 d);
          iymax = min (by2 g) (by2 d);
          iw = max (ixmax - ixmin + 1) 0;
          ih = max (iymax - iymin + 1) 0;
          inters = iw * ih;
          uni = (bx2 d - bx1 d + 1) * (by2 d - by1 d + 1)
                + (bx2 g - bx1 g + 1) * (by2 g - by1 g + 1) - inters
      in inters / uni)"

text \<open>
  \<open>np.max\<close> and \<open>np.argmax\<close> (the index of the first maximum). Both are only called on
  non-empty arrays; the value at \<open>[]\<close>, where numpy raises, is never used.
\<close>

fun np_max :: "real list \<Rightarrow> real" where
  "np_max [] = 0"
| "np_max [x] = x"
| "np_max (x # y # ys) = max x (np_max (y # ys))"

fun first_index :: "real \<Rightarrow> real list \<Rightarrow> nat" where
  "first_index v [] = 0"
| "first_index v (x # xs) = (if x = v then 0 else Suc (first_index v xs))"

definition np_argmax :: "real list \<Rightarrow> nat" where
  "np_argmax xs = first_index (np_max xs) xs"

text \<open>
  \<open>ovmax\<close> and \<open>jmax\<close> of one detection: \<open>ovmax\<close> stays at \<open>-inf\<close> (\<open>None\<close>) when
  \<open>im_gt.size > 0\<close> fails, and then \<open>jmax\<close> is never read.
\<close>

definition ovmax_of :: "box list \<Rightarrow> box \<Rightarrow> real option" where
  "ovmax_of im_gt d = (if im_gt \<noteq> [] then Some (np_max (map (overlap d) im_gt)) else None)"

definition jmax_of :: "box list \<Rightarrow> box \<Rightarrow> nat" where
  "jmax_of im_gt d = np_argmax (map (overlap d) im_gt)"

definition exceeds :: "real option \<Rightarrow> real \<Rightarrow> bool" where
  "exceeds ovmax ovthresh = (case ovmax of None \<Rightarrow> False | Some v \<Rightarrow> v > ovthresh)"

type_synonym match_state = "real list \<times> real list \<times> real list"

text \<open>The body of \<open>for i, d in enumerate(im_det)\<close> on the state \<open>(found, im_tp, im_fp)\<close>.\<close>

fun det_step :: "box list \<Rightarrow> real \<Rightarrow> match_state \<Rightarrow> nat \<times> box \<Rightarrow> match_state" where
  "det_step im_gt ovthresh (found, im_tp, im_fp) (i, d) =
     (let ovmax = ovmax_of im_gt d;
          jmax = jmax_of im_gt d
      in if exceeds ovmax ovthresh then
           (if found ! jmax = 0 then (found[jmax := 1], im_tp[i := 1], im_fp)
            else (found, im_tp, im_fp[i := 1]))
         else (found, im_tp, im_fp[i := 1]))"

definition match_loop :: "box list \<Rightarrow> real \<Rightarrow> nat \<Rightarrow> box list \<Rightarrow> match_state" where
  "match_loop im_gt ovthresh n ds =
     foldl (det_step im_gt ovthresh)
       (replicate (length im_gt) 0, replicate n 0, replicate n 0) (enumerate 0 ds)"

definition tp_and_fp_of_detection :: "box list \<Rightarrow> box list \<Rightarrow> real \<Rightarrow> match_state" where
  "tp_and_fp_of_detection im_gt im_det ovthresh = match_loop im_gt ovthresh (length im_det) im_det"

text \<open>
  The loop in closed form, in terms of the functions it calls; the proofs go through it.
  Detection \<open>i\<close> is above the threshold when \<open>ovmax > ovthresh\<close> holds for it, and it is
  the first claim of its \<open>jmax\<close> when no earlier detection above the threshold has the
  same \<open>jmax\<close>.
\<close>

definition above :: "box list \<Rightarrow> real \<Rightarrow> box list \<Rightarrow> nat \<Rightarrow> bool" where
  "above im_gt ovthresh ds i = exceeds (ovmax_of im_gt (ds ! i)) ovthresh"

definition first_claim :: "box list \<Rightarrow> real \<Rightarrow> box list \<Rightarrow> nat \<Rightarrow> bool" where
  "first_claim im_gt ovthresh ds i =
     (above im_gt ovthresh ds i \<and>
      (\<forall>m\<in>{0..<i}.
         \<not> (above im_gt ovthresh ds m \<and> jmax_of im_gt (ds ! m) = jmax_of im_gt (ds ! i))))"

text \<open>
  The matcher as the specification words it, written without the functions above. A box
  is well formed when \<open>x2 \<ge> x1\<close> and \<open>y2 \<ge> y1\<close>. With the pixel-inclusive convention a
  side from \<open>x1\<close> to \<open>x2\<close> has length \<open>x2 - x1 + 1\<close>: the area of a box, the area of the
  intersection of two boxes (side lengths \<open>max(0, min_x2 - max_x1 + 1)\<close>), the area of their
  union, and the IoU as the ratio of the last two.
\<close>

definition well_formed :: "box \<Rightarrow> bool" where
  "well_formed b = (case b of (x1, y1, x2, y2) \<Rightarrow> x1 \<le> x2 \<and> y1 \<le> y2)"

definition incl_area :: "box \<Rightarrow> real" where
  "incl_area b = (case b of (x1, y1, x2, y2) \<Rightarrow> (x2 - x1 + 1) * (y2 - y1 + 1))"

definition incl_inter :: "box \<Rightarrow> box \<Rightarrow> real" where
  "incl_inter p q =
     (case p of (px1, py1, px2, py2) \<Rightarrow>
      case q of (qx1, qy1, qx2, qy2) \<Rightarrow>
        max 0 (min px2 qx2 - max px1 qx1 + 1) * max 0 (min py2 qy2 - max py1 qy1 + 1))"

definition incl_union :: "box \<Rightarrow> box \<Rightarrow> real" where
  "incl_union p q = incl_area p + incl_area q - incl_inter p q"

definition iou :: "box \<Rightarrow> box \<Rightarrow> real" where
  "iou p q = incl_inter p q / incl_union p q"

text \<open>
  Ground-truth box \<open>j\<close> is the best match of detection \<open>d\<close> when no box has a larger IoU
  with \<open>d\<close> and every box before \<open>j\<close> has a strictly smaller one. Detection \<open>i\<close> reaches
  box \<open>j\<close> when \<open>j\<close> is its best match and their IoU strictly exceeds the threshold. It is
  a true positive when it reaches a box that no earlier detection reaches.
\<close>

definition best_match :: "box list \<Rightarrow> box \<Rightarrow> nat \<Rightarrow> bool" where
  "best_match gts d j =
     (j < length gts \<and>
      (\<forall>k\<in>{0..<length gts}. iou d (gts ! k) \<le> iou d (gts ! j)) \<and>
      (\<forall>k\<in>{0..<j}. iou d (gts ! k) < iou d (gts ! j)))"

definition reaches :: "box list \<Rightarrow> real \<Rightarrow> box list \<Rightarrow> nat \<Rightarrow> nat \<Rightarrow> bool" where
  "reaches gts t dets i j = (best_match gts (dets ! i) j \<and> t < iou (dets ! i) (gts ! j))"

definition is_true_positive :: "box list \<Rightarrow> real \<Rightarrow> box list \<Rightarrow> nat \<Rightarrow> bool" where
  "is_true_positive gts t dets i =
     (\<exists>j\<in>{0..<length gts}. reaches gts t dets i j \<and> (\<forall>m\<in>{0..<i}. \<not> reaches gts t dets m j))"


section \<open>Geometry codec: \<open>convert_box_to_state\<close>, \<open>convert_state_to_box\<close> (kalman.py)\<close>

text \<open>
  \<open>torchvision.ops.box_convert(boxes, "xyxy", "cxcywh")\<close> and \<open>torchvision.ops.box_area\<close>
  are library functions; they are written out by their documented meaning. The arrays of
  shape \<open>[N, 4]\<close> are lists of 4-tuples. Where \<open>h\<close> or \<open>w\<close> is zero the floats are
  non-finite and HOL's quotient is 0; the codec is only stated on boxes of positive width
  and height.
\<close>

definition box_convert_xyxy_cxcywh :: "box \<Rightarrow> box" where
  "box_convert_xyxy_cxcywh b =
     ((bx1 b + bx2 b) / 2, (by1 b + by2 b) / 2, bx2 b - bx1 b, by2 b - by1 b)"

definition box_area :: "box \<Rightarrow> real" where
  "box_area b = (bx2 b - bx1 b) * (by2 b - by1 b)"

definition convert_box_to_state :: "box list \<Rightarrow> box list" where
  "convert_box_to_state boxes =
     map (\<lambda>b. case box_convert_xyxy_cxcywh b of
                 (cx, cy, w, h) \<Rightarrow> let ratios = w / h; areas = box_area b
                                   in (cx, cy, areas, ratios)) boxes"

definition convert_state_to_box :: "box list \<Rightarrow> box list" where
  "convert_state_to_box states =
     map (\<lambda>s. case s of
                 (cx, cy, areas, ratios) \<Rightarrow>
                   let w = sqrt (areas * ratios); h = areas / w
                   in (cx - w / 2, cy - h / 2, cx + w / 2, cy + h / 2)) states"

section \<open>Variant A: the matrices of \<open>SORTKalmanFilter.__init__\<close> (kalman.py)\<close>

text \<open>
  The matrices are the literals of the source, row by row; \<open>0.01\<close> is 1/100 and
  \<open>0.01 ** 2\<close> is 1/10000 (their float32 roundings are not modelled).
\<close>

definition SORT_H :: "real list list" where
  "SORT_H =
     [[1, 0, 0, 0, 0, 0, 0],
      [0, 1, 0, 0, 0, 0, 0],
      [0, 0, 1, 0, 0, 0, 0],
      [0, 0, 0, 1, 0, 0, 0]]"

definition SORT_A :: "real list list" where
  "SORT_A =
     [[1, 0, 0, 0, 1, 0, 0],
      [0, 1, 0, 0, 0, 1, 0],
      [0, 0, 1, 0, 0, 0, 1],
      [0, 0, 0, 1, 0, 0, 0],
      [0, 0, 0, 0, 1, 0, 0],
      [0, 0, 0, 0, 0, 1, 0],
      [0, 0, 0, 0, 0, 0, 1]]"

definition SORT_Q :: "real list list" where
  "SORT_Q =
     [[1, 0, 0, 0, 0, 0, 0],
      [0, 1, 0, 0, 0, 0, 0],
      [0, 0, 1, 0, 0, 0, 0],
      [0, 0, 0, 1, 0, 0, 0],
      [0, 0, 0, 0, 1 / 100, 0, 0],
      [0, 0, 0, 0, 0, 1 / 100, 0],
      [0, 0, 0, 0, 0, 0, (1 / 100) ^ 2]]"

definition SORT_P :: "real list list" where
  "SORT_P =
     [[1, 0, 0, 0, 1, 0, 0],
      [0, 1, 0, 0, 0, 1, 0],
      [0, 0, 1, 0, 0, 0, 1],
      [0, 0, 0, 1, 0, 0, 0],
      [0, 0, 0, 0, 1000, 0, 0],
      [0, 0, 0, 0, 0, 1000, 0],
      [0, 0, 0, 0, 0, 0, 1000]]"

definition SORT_R :: "real list list" where
  "SORT_R = [[1, 0, 0, 0], [0, 1, 0, 0], [0, 0, 10, 0], [0, 0, 0, 10]]"

text \<open>
  The fields of \<open>cv2.KalmanFilter(7, 4)\<close> that \<open>reset\<close> assigns, and the filter object
  after \<open>__init__\<close> (which ends in \<open>self.reset()\<close>).
\<close>

record cv_kalman =
  transitionMatrix :: "real list list"
  measurementMatrix :: "real list list"
  processNoiseCov :: "real list list"
  errorCovPre :: "real list list"
  measurementNoiseCov :: "real list list"

record sort_kalman_filter =
  initial_state :: "box option"
  kalman :: cv_kalman

definition SORT_reset :: "sort_kalman_filter" where
  "SORT_reset =
     \<lparr> initial_state = None,
       kalman = \<lparr> transitionMatrix = SORT_A, measurementMatrix = SORT_H,
                  processNoiseCov = SORT_Q, errorCovPre = SORT_P,
                  measurementNoiseCov = SORT_R \<rparr> \<rparr>"

definition SORTKalmanFilter_init :: "sort_kalman_filter" where
  "SORTKalmanFilter_init = SORT_reset"

text \<open>A diagonal matrix, and the reading of "near-zero" used to state the spec's sentence.\<close>

definition diag_matrix :: "real list \<Rightarrow> real list list" where
  "diag_matrix ds =
     map (\<lambda>i. map (\<lambda>j. if i = j then ds ! i else 0) [0..<length ds]) [0..<length ds]"

definition near_zero_within :: "real \<Rightarrow> real \<Rightarrow> bool" where
  "near_zero_within tol x = (\<bar>x\<bar> \<le> tol)"

section \<open>Trajectories, \<open>KalmanFilter.smooth\<close>, \<open>obj_is_moving\<close>, \<open>freeze_at_mean\<close> (kalman.py)\<close>

text \<open>
  A trajectory is an array of shape \<open>[L, 4]\<close>, either a torch tensor or a numpy array; the
  functions test which with \<open>isinstance\<close>. Rows are lists of reals, all of one length.
\<close>

datatype trajectory = Tensor "real list list" | NdArray "real list list"

fun rows :: "trajectory \<Rightarrow> real list list" where
  "rows (Tensor rs) = rs"
| "rows (NdArray rs) = rs"

fun same_kind :: "trajectory \<Rightarrow> real list list \<Rightarrow> trajectory" where
  "same_kind (Tensor _) rs = Tensor rs"
| "same_kind (NdArray _) rs = NdArray rs"

definition vadd :: "real list \<Rightarrow> real list \<Rightarrow> real list" where
  "vadd a b = map2 (+) a b"

definition vsub :: "real list \<Rightarrow> real list \<Rightarrow> real list" where
  "vsub a b = map2 (-) a b"

text \<open>
  \<open>cv2.KalmanFilter\<close> is an external library object. Its two methods are parameters of
  the model, acting on a filter state of any type \<open>'k\<close>: \<open>kpredict\<close> returns the new filter
  state and the predicted state vector (\<open>statePre\<close>), \<open>kcorrect\<close> incorporates a
  measurement. The loop of \<open>smooth\<close> threads the filter state through both calls.
\<close>

fun smooth_loop ::
  "('k \<Rightarrow> 'k \<times> real list) \<Rightarrow> ('k \<Rightarrow> real list \<Rightarrow> 'k) \<Rightarrow> real list \<Rightarrow> 'k \<Rightarrow> real list list
     \<Rightarrow> 'k \<times> real list list" where
  "smooth_loop kpredict kcorrect t0 k [] = (k, [])"
| "smooth_loop kpredict kcorrect t0 k (position # rest) =
     (case kpredict k of
        (k1, pre) \<Rightarrow>
          let predicted_position = vadd (take 4 pre) t0;
              k2 = kcorrect k1 (vsub position t0)
          in case smooth_loop kpredict kcorrect t0 k2 rest of
               (k3, smoothed) \<Rightarrow> (k3, predicted_position # smoothed))"

text \<open>
  \<open>smooth\<close> returns the filter state it leaves behind and the smoothed trajectory, of the
  kind it was given; \<open>np.stack\<close> of an empty list raises \<open>ValueError\<close>.
\<close>

definition smooth ::
  "('k \<Rightarrow> 'k \<times> real list) \<Rightarrow> ('k \<Rightarrow> real list \<Rightarrow> 'k) \<Rightarrow> 'k \<Rightarrow> trajectory
     \<Rightarrow> 'k \<times> (py_error + trajectory)" where
  "smooth kpredict kcorrect k trajectory =
     (case rows trajectory of
        [] \<Rightarrow> (k, Inl ValueError)
      | t0 # rest \<Rightarrow>
          (case smooth_loop kpredict kcorrect t0 k (t0 # rest) of
             (k', smoothed_trajectory) \<Rightarrow> (k', Inr (same_kind trajectory smoothed_trajectory))))"

text \<open>
  The filter state after predict-then-correct on each of the measurements \<open>ms\<close>, relative
  to \<open>t0\<close>: the state from which the next prediction is made.
\<close>

definition state_after ::
  "('k \<Rightarrow> 'k \<times> real list) \<Rightarrow> ('k \<Rightarrow> real list \<Rightarrow> 'k) \<Rightarrow> real list \<Rightarrow> 'k \<Rightarrow> real list list \<Rightarrow> 'k" where
  "state_after kpredict kcorrect t0 k ms =
     foldl (\<lambda>s m. kcorrect (fst (kpredict s)) (vsub m t0)) k ms"

definition np_linalg_norm :: "real list \<Rightarrow> real" where
  "np_linalg_norm v = sqrt (sum_list (map (\<lambda>x. x * x) v))"

definition obj_is_moving :: "trajectory \<Rightarrow> real \<Rightarrow> real \<Rightarrow> py_error + bool" where
  "obj_is_moving trajectory pixel_per_second_tresh time_treshold =
     (let traj = rows trajectory; dt = 1 / 25
      in if real (length traj) > time_treshold / dt then
           (if traj = [] then Inl IndexError
            else
              let start = take 2 (hd traj);
                  end_pt = take 2 (last traj);
                  pixel_distance = np_linalg_norm (vsub start end_pt);
                  pixel_velocity = pixel_distance / (real (length traj) * dt)
              in Inr (pixel_velocity > pixel_per_second_tresh))
         else Inr True)"

text \<open>\<open>traj.mean(0)\<close>: the mean of every column.\<close>

definition mean0 :: "real list list \<Rightarrow> real list" where
  "mean0 rs =
     map (\<lambda>c. sum_list (map (\<lambda>r. r ! c) rs) / real (length rs)) [0..<length (hd rs)]"

text \<open>
  \<open>mean(0).repeat(len(traj), 1)\<close> stacks \<open>len(traj)\<close> copies of the mean row;
  \<open>np.tile(traj, (len(traj), 1))\<close> stacks \<open>len(traj)\<close> copies of the whole array. The two
  \<open>isinstance\<close> tests are the two cases of the datatype.
\<close>

definition freeze_at_mean :: "trajectory \<Rightarrow> trajectory" where
  "freeze_at_mean traj =
     (if length (rows traj) > 1 then
        (case traj of
           Tensor rs \<Rightarrow> Tensor (replicate (length rs) (mean0 rs))
         | NdArray rs \<Rightarrow> NdArray (concat (replicate (length rs) rs)))
      else traj)"

text \<open>
  The straight-line distance between the first two columns of the first and of the last
  row of a trajectory, for stating what \<open>obj_is_moving\<close> compares.
\<close>

definition center_distance :: "trajectory \<Rightarrow> real" where
  "center_distance traj =
     (let a = hd (rows traj); b = last (rows traj)
      in sqrt ((a ! 0 - b ! 0)\<^sup>2 + (a ! 1 - b ! 1)\<^sup>2))"

section \<open>Metric aggregator: \<open>detection_metrics_from_tp_and_fp\<close> (data_obj_detect.py)\<close>

text \<open>
  A per-frame slot of \<open>tp\<close> or \<open>fp\<close> is either the Python list \<open>[]\<close> it was created
  with, or the numpy array the evaluation loop stored; \<open>type(im) != type([])\<close> tells them
  apart.
\<close>

datatype frame_flags = NoDetections | Flags "real list"

fun is_array :: "frame_flags \<Rightarrow> bool" where
  "is_array NoDetections = False"
| "is_array (Flags xs) = True"

fun flag_values :: "frame_flags \<Rightarrow> real list" where
  "flag_values NoDetections = []"
| "flag_values (Flags xs) = xs"

definition shape0 :: "frame_flags \<Rightarrow> nat" where
  "shape0 im = length (flag_values im)"

text \<open>The first loop: the total number of flags in the array slots of \<open>tp\<close>.\<close>

definition count_flat :: "frame_flags list \<Rightarrow> nat" where
  "count_flat tp = foldl (\<lambda>i im. if is_array im then i + shape0 im else i) 0 tp"

text \<open>
  \<open>a[i : s + i] = v\<close>: the slice is clipped to the array, and \<open>v\<close> must have the length of
  the slice or length 1 (broadcast); otherwise numpy raises \<open>ValueError\<close>.
\<close>

definition assign_slice :: "real list \<Rightarrow> nat \<Rightarrow> nat \<Rightarrow> real list \<Rightarrow> py_error + real list" where
  "assign_slice a i s v =
     (let lo = min i (length a); hi = max lo (min (s + i) (length a)); n = hi - lo
      in if length v = n then Inr (take lo a @ v @ drop hi a)
         else if length v = 1 then Inr (take lo a @ replicate n (hd v) @ drop hi a)
         else Inl ValueError)"

text \<open>The second loop, over \<open>zip(tp, fp)\<close>, with the running offset \<open>i\<close>.\<close>

fun fill_flat ::
  "(frame_flags \<times> frame_flags) list \<Rightarrow> nat \<Rightarrow> real list \<Rightarrow> real list
     \<Rightarrow> py_error + (real list \<times> real list)" where
  "fill_flat [] i tp_flat fp_flat = Inr (tp_flat, fp_flat)"
| "fill_flat ((tp_im, fp_im) # rest) i tp_flat fp_flat =
     (if is_array tp_im then
        (let s = shape0 tp_im
         in case assign_slice tp_flat i s (flag_values tp_im) of
              Inl e \<Rightarrow> Inl e
            | Inr tp_flat' \<Rightarrow>
                (case assign_slice fp_flat i s (flag_values fp_im) of
                   Inl e \<Rightarrow> Inl e
                 | Inr fp_flat' \<Rightarrow> fill_flat rest (i + s) tp_flat' fp_flat'))
      else fill_flat rest i tp_flat fp_flat)"

fun cumsum_from :: "real \<Rightarrow> real list \<Rightarrow> real list" where
  "cumsum_from acc [] = []"
| "cumsum_from acc (x # xs) = (acc + x) # cumsum_from (acc + x) xs"

definition np_cumsum :: "real list \<Rightarrow> real list" where
  "np_cumsum xs = cumsum_from 0 xs"

text \<open>
  The precision envelope: the backward loop \<open>mpre[i - 1] = max(mpre[i - 1], mpre[i])\<close>
  leaves at every index the maximum of the suffix starting there.
\<close>

fun envelope :: "real list \<Rightarrow> real list" where
  "envelope [] = []"
| "envelope [x] = [x]"
| "envelope (x # y # ys) = (let e = envelope (y # ys) in max x (hd e) # e)"

definition float64_eps :: real where
  "float64_eps = 1 / 2 ^ 52"

definition py_int :: "real \<Rightarrow> int" where
  "py_int x = (if 0 \<le> x then \<lfloor>x\<rfloor> else \<lceil>x\<rceil>)"

text \<open>
  The values of the returned dictionary. The early return holds Python numbers; the
  normal return holds strings formatted with \<open>:.2f\<close> and \<open>str(int(...))\<close>, kept here as the
  number that is formatted. With \<open>npos = 0\<close> and at least one detection the division
  \<open>tp / float(npos)\<close> is a numpy division by zero: it does not raise, and recall and AP are
  \<open>nan\<close> or \<open>inf\<close>, written \<open>StrNonFinite\<close>.
\<close>

datatype metric_value = PyFloat real | PyInt int | Str2f real | StrInt int | StrNonFinite

record detector_eval =
  AP :: metric_value
  Prec :: metric_value
  Rec :: metric_value
  TP :: metric_value
  FP :: metric_value

definition detection_metrics_from_tp_and_fp ::
  "frame_flags list \<Rightarrow> frame_flags list \<Rightarrow> nat \<Rightarrow> py_error + detector_eval" where
  "detection_metrics_from_tp_and_fp tp fp npos =
     (let i = count_flat tp
      in case fill_flat (zip tp fp) 0 (replicate i 0) (replicate i 0) of
           Inl e \<Rightarrow> Inl e
         | Inr (tp_flat, fp_flat) \<Rightarrow>
             let tpc = np_cumsum tp_flat; fpc = np_cumsum fp_flat
             in if length tpc = 0 then
                  Inr \<lparr> AP = PyFloat 0, Prec = PyFloat 0, Rec = PyFloat 0,
                        TP = PyInt 0, FP = PyInt 0 \<rparr>
                else
                  let prec = map2 (\<lambda>t f. t / max (t + f) float64_eps) tpc fpc
                  in if npos = 0 then
                       Inr \<lparr> AP = StrNonFinite, Prec = Str2f (last prec), Rec = StrNonFinite,
                             TP = StrInt (py_int (np_max tpc)), FP = StrInt (py_int (np_max fpc)) \<rparr>
                     else
                       let recall = map (\<lambda>t. t / real npos) tpc;
                           mrec = [0] @ recall @ [1];
                           mpre = envelope ([0] @ prec @ [0]);
                           idx = filter (\<lambda>i. mrec ! (i + 1) \<noteq> mrec ! i) [0..<length mrec - 1];
                           ap = sum_list (map (\<lambda>i. (mrec ! (i + 1) - mrec ! i) * mpre ! (i + 1)) idx)
                       in Inr \<lparr> AP = Str2f ap, Prec = Str2f (last prec), Rec = Str2f (np_max recall),
                                TP = StrInt (py_int (np_max tpc)), FP = StrInt (py_int (np_max fpc)) \<rparr>)"

section \<open>\<open>evaluate_detections\<close> and \<open>evaluate_detections_on_tracking_data\<close> (data_obj_detect.py)\<close>


















text \<open>The dictionary of the early return of \<open>detection_metrics_from_tp_and_fp\<close>.\<close>

definition zero_metrics :: detector_eval where
  "zero_metrics = \<lparr> AP = PyFloat 0, Prec = PyFloat 0, Rec = PyFloat 0, TP = PyInt 0, FP = PyInt 0 \<rparr>"



section \<open>The matcher loop in closed form\<close>

lemma np_max_in: "xs \<noteq> [] \<Longrightarrow> np_max xs \<in> set xs"
  by (induction xs rule: np_max.induct) (auto simp: max_def)

lemma first_index_less: "v \<in> set xs \<Longrightarrow> first_index v xs < length xs"
  by (induction xs) auto

lemma np_argmax_less: "xs \<noteq> [] \<Longrightarrow> np_argmax xs < length xs"
  by (simp add: np_argmax_def first_index_less np_max_in)

lemma jmax_of_less: "im_gt \<noteq> [] \<Longrightarrow> jmax_of im_gt d < length im_gt"
  using np_argmax_less [of "map (overlap d) im_gt"] by (simp add: jmax_of_def)

lemma above_gt_nonempty: "above im_gt ovthresh ds i \<Longrightarrow> im_gt \<noteq> []"
  by (auto simp: above_def exceeds_def ovmax_of_def split: if_splits)

lemma match_loop_snoc:
  "match_loop im_gt ovthresh n (ds @ [d]) =
     det_step im_gt ovthresh (match_loop im_gt ovthresh n ds) (length ds, d)"
  by (simp add: match_loop_def enumerate_append_eq)

lemma map_upt_update:
  "i < n \<Longrightarrow> (map f [0..<n])[i := v] = map (f(i := v)) [0..<n]"
  by (rule nth_equalityI) (auto simp: nth_list_update)

lemma match_loop_take:
  "k \<le> length ds \<Longrightarrow> length ds \<le> n \<Longrightarrow>
   match_loop im_gt ovthresh n (take k ds) =
     (map (\<lambda>j. if \<exists>i<k. above im_gt ovthresh ds i \<and> jmax_of im_gt (ds ! i) = j then 1 else 0)
        [0..<length im_gt],
      map (\<lambda>i. if i < k \<and> first_claim im_gt ovthresh ds i then 1 else 0) [0..<n],
      map (\<lambda>i. if i < k \<and> \<not> first_claim im_gt ovthresh ds i then 1 else 0) [0..<n])"
proof (induction k)
  case 0
  show ?case
    by (simp add: match_loop_def map_replicate_const [symmetric] del: replicate.simps)
       (simp add: map_replicate_const)
next
  case (Suc k)
  let ?ab = "above im_gt ovthresh ds" and ?jm = "\<lambda>i. jmax_of im_gt (ds ! i)"
  from Suc.prems have k: "k < length ds" "k < n" by simp_all
  have tk: "take (Suc k) ds = take k ds @ [ds ! k]"
    using k by (simp add: take_Suc_conv_app_nth)
  have len: "length (take k ds) = k" using k by simp
  have IH: "match_loop im_gt ovthresh n (take k ds) =
     (map (\<lambda>j. if \<exists>i<k. ?ab i \<and> ?jm i = j then 1 else 0) [0..<length im_gt],
      map (\<lambda>i. if i < k \<and> first_claim im_gt ovthresh ds i then 1 else 0) [0..<n],
      map (\<lambda>i. if i < k \<and> \<not> first_claim im_gt ovthresh ds i then 1 else 0) [0..<n])"
    using Suc by simp
  show ?case
  proof (cases "?ab k")
    case False
    then have nf: "\<not> first_claim im_gt ovthresh ds k" by (simp add: first_claim_def)
    have ex: "\<not> exceeds (ovmax_of im_gt (ds ! k)) ovthresh" using False by (simp add: above_def)
    show ?thesis
      unfolding tk match_loop_snoc len IH
      using ex k nf False
      by (auto simp: map_upt_update less_Suc_eq Let_def intro!: nth_equalityI)
  next
    case True
    then have ne: "im_gt \<noteq> []" by (rule above_gt_nonempty)
    then have jl: "?jm k < length im_gt" by (rule jmax_of_less)
    have ex: "exceeds (ovmax_of im_gt (ds ! k)) ovthresh" using True by (simp add: above_def)
    show ?thesis
    proof (cases "\<exists>i<k. ?ab i \<and> ?jm i = ?jm k")
      case dup: True
      then have nf: "\<not> first_claim im_gt ovthresh ds k" by (auto simp: first_claim_def)
      show ?thesis
        unfolding tk match_loop_snoc len IH
        using ex k nf dup jl
        by (auto simp: map_upt_update less_Suc_eq Let_def intro!: nth_equalityI)
    next
      case fresh: False
      then have fc: "first_claim im_gt ovthresh ds k" using True by (auto simp: first_claim_def)
      show ?thesis
        unfolding tk match_loop_snoc len IH
        using ex k fc fresh jl True
        by (auto simp: map_upt_update less_Suc_eq Let_def intro!: nth_equalityI)
    qed
  qed
qed


lemma tp_and_fp_closed:
  "tp_and_fp_of_detection im_gt im_det ovthresh =
     (map (\<lambda>j. if \<exists>i<length im_det. above im_gt ovthresh im_det i \<and> jmax_of im_gt (im_det ! i) = j
                then 1 else 0) [0..<length im_gt],
      map (\<lambda>i. if first_claim im_gt ovthresh im_det i then 1 else 0) [0..<length im_det],
      map (\<lambda>i. if \<not> first_claim im_gt ovthresh im_det i then 1 else 0) [0..<length im_det])"
  using match_loop_take [of "length im_det" im_det "length im_det" im_gt ovthresh]
  by (simp add: tp_and_fp_of_detection_def cong: map_cong)

lemma sum_list_update_real:
  "i < length xs \<Longrightarrow> sum_list (xs[i := v]) = sum_list xs - xs ! i + (v::real)"
  by (induction xs arbitrary: i) (auto split: nat.splits)

lemma match_loop_sums:
  "k \<le> length ds \<Longrightarrow> length ds \<le> n \<Longrightarrow>
   sum_list (fst (match_loop im_gt ovthresh n (take k ds))) =
   sum_list (fst (snd (match_loop im_gt ovthresh n (take k ds))))"
proof (induction k)
  case 0
  show ?case by (simp add: match_loop_def sum_list_replicate)
next
  case (Suc k)
  from Suc.prems have k: "k < length ds" "k < n" by simp_all
  have tk: "take (Suc k) ds = take k ds @ [ds ! k]"
    using k by (simp add: take_Suc_conv_app_nth)
  obtain found im_tp im_fp where st: "match_loop im_gt ovthresh n (take k ds) = (found, im_tp, im_fp)"
    by (cases "match_loop im_gt ovthresh n (take k ds)") auto
  have IH: "sum_list found = sum_list im_tp" using Suc st by simp
  have cf: "match_loop im_gt ovthresh n (take k ds) =
     (map (\<lambda>j. if \<exists>i<k. above im_gt ovthresh ds i \<and> jmax_of im_gt (ds ! i) = j then 1 else 0)
        [0..<length im_gt],
      map (\<lambda>i. if i < k \<and> first_claim im_gt ovthresh ds i then 1 else 0) [0..<n],
      map (\<lambda>i. if i < k \<and> \<not> first_claim im_gt ovthresh ds i then 1 else 0) [0..<n])"
    using Suc.prems by (intro match_loop_take) simp_all
  have lf: "length found = length im_gt" and lt: "length im_tp = n" and tk0: "im_tp ! k = 0"
    using cf st k by auto
  show ?case
  proof (cases "exceeds (ovmax_of im_gt (ds ! k)) ovthresh \<and> found ! jmax_of im_gt (ds ! k) = 0")
    case False
    then show ?thesis
      unfolding tk match_loop_snoc st using IH k by (auto simp: Let_def)
  next
    case True
    then have "above im_gt ovthresh ds k" by (simp add: above_def)
    then have "im_gt \<noteq> []" by (rule above_gt_nonempty)
    then have jl: "jmax_of im_gt (ds ! k) < length found" using lf by (simp add: jmax_of_less)
    show ?thesis
      unfolding tk match_loop_snoc st using IH k True jl lt tk0
      by (simp add: Let_def sum_list_update_real)
  qed
qed

lemma sum_list_flags:
  "set xs \<subseteq> {0, 1} \<Longrightarrow> sum_list xs = real (length (filter (\<lambda>x. x = 1) xs))"
  by (induction xs) auto

subsection \<open>The loop computes the pixel-inclusive IoU and its first maximum\<close>

lemma overlap_iou: "overlap d g = iou d g"
  by (cases d; cases g)
     (simp add: overlap_def iou_def incl_union_def incl_inter_def incl_area_def Let_def
        bx1_def by1_def bx2_def by2_def max.commute min.commute)

lemma inter_le_area:
  assumes "well_formed p"
  shows "incl_inter p q \<le> incl_area p"
proof -
  obtain px1 py1 px2 py2 where p: "p = (px1, py1, px2, py2)" by (cases p) auto
  obtain qx1 qy1 qx2 qy2 where q: "q = (qx1, qy1, qx2, qy2)" by (cases q) auto
  from assms have w: "px1 \<le> px2" "py1 \<le> py2" by (simp_all add: well_formed_def p)
  have "max 0 (min px2 qx2 - max px1 qx1 + 1) * max 0 (min py2 qy2 - max py1 qy1 + 1)
          \<le> (px2 - px1 + 1) * (py2 - py1 + 1)"
    using w by (intro mult_mono) auto
  then show ?thesis by (simp add: incl_inter_def incl_area_def p q)
qed

lemma area_ge_one: "well_formed b \<Longrightarrow> 1 \<le> incl_area b"
proof -
  assume wf: "well_formed b"
  obtain x1 y1 x2 y2 where b: "b = (x1, y1, x2, y2)" by (cases b) auto
  from wf have "1 \<le> x2 - x1 + 1" "1 \<le> y2 - y1 + 1" by (simp_all add: well_formed_def b)
  then have "1 * 1 \<le> (x2 - x1 + 1) * (y2 - y1 + 1)" by (intro mult_mono) auto
  then show ?thesis by (simp add: incl_area_def b)
qed

lemma union_ge_one:
  assumes "well_formed p" "well_formed q"
  shows "1 \<le> incl_union p q"
  using inter_le_area [OF assms(1), of q] area_ge_one [OF assms(2)]
  by (simp add: incl_union_def)

lemma np_max_ge: "x \<in> set xs \<Longrightarrow> x \<le> np_max xs"
  by (induction xs rule: np_max.induct) auto

lemma first_index_nth: "v \<in> set xs \<Longrightarrow> xs ! first_index v xs = v"
  by (induction xs) auto

lemma first_index_before: "k < first_index v xs \<Longrightarrow> xs ! k \<noteq> v"
proof (induction xs arbitrary: k)
  case Nil
  then show ?case by simp
next
  case (Cons x xs)
  then show ?case by (cases k) (auto split: if_splits)
qed

lemma np_argmax_spec:
  assumes "xs \<noteq> []"
  shows "np_argmax xs < length xs" "xs ! np_argmax xs = np_max xs"
    "k < length xs \<Longrightarrow> xs ! k \<le> xs ! np_argmax xs"
    "k < np_argmax xs \<Longrightarrow> xs ! k < xs ! np_argmax xs"
proof -
  show l: "np_argmax xs < length xs" using assms by (rule np_argmax_less)
  show e: "xs ! np_argmax xs = np_max xs"
    using assms by (simp add: np_argmax_def first_index_nth np_max_in)
  show "xs ! k \<le> xs ! np_argmax xs" if "k < length xs"
    using that e np_max_ge [of "xs ! k" xs] by simp
  show "xs ! k < xs ! np_argmax xs" if "k < np_argmax xs"
  proof -
    from that l have kl: "k < length xs" by simp
    have "xs ! k \<noteq> np_max xs" using that by (simp add: np_argmax_def first_index_before)
    moreover have "xs ! k \<le> np_max xs" using kl np_max_ge [of "xs ! k" xs] by simp
    ultimately show ?thesis using e by simp
  qed
qed

lemma best_match_unique:
  assumes "best_match gts d j" "best_match gts d j'"
  shows "j = j'"
proof (rule ccontr)
  assume "j \<noteq> j'"
  then consider "j < j'" | "j' < j" by linarith
  then show False
  proof cases
    case 1
    then have "iou d (gts ! j) < iou d (gts ! j')" using assms(2) by (simp add: best_match_def)
    moreover have "iou d (gts ! j') \<le> iou d (gts ! j)" using assms by (simp add: best_match_def)
    ultimately show False by simp
  next
    case 2
    then have "iou d (gts ! j') < iou d (gts ! j)" using assms(1) by (simp add: best_match_def)
    moreover have "iou d (gts ! j) \<le> iou d (gts ! j')" using assms by (simp add: best_match_def)
    ultimately show False by simp
  qed
qed

lemma best_match_jmax:
  assumes "gts \<noteq> []"
  shows "best_match gts d (jmax_of gts d)"
proof -
  let ?xs = "map (overlap d) gts"
  have ne: "?xs \<noteq> []" using assms by simp
  have nth: "?xs ! k = iou d (gts ! k)" if "k < length gts" for k
    using that by (simp add: overlap_iou)
  have j: "jmax_of gts d < length gts" using assms by (rule jmax_of_less)
  have a: "iou d (gts ! k) \<le> iou d (gts ! jmax_of gts d)" if "k < length gts" for k
    using np_argmax_spec(3) [OF ne, of k] that j nth by (simp add: jmax_of_def)
  have b: "iou d (gts ! k) < iou d (gts ! jmax_of gts d)" if "k < jmax_of gts d" for k
    using np_argmax_spec(4) [OF ne, of k] that j nth by (simp add: jmax_of_def)
  from j a b show ?thesis by (simp add: best_match_def)
qed

lemma best_match_iff: "best_match gts d j \<longleftrightarrow> gts \<noteq> [] \<and> j = jmax_of gts d"
proof
  assume bm: "best_match gts d j"
  then have ne: "gts \<noteq> []" by (auto simp: best_match_def)
  from best_match_unique [OF bm best_match_jmax [OF ne]] ne
  show "gts \<noteq> [] \<and> j = jmax_of gts d" by simp
next
  assume "gts \<noteq> [] \<and> j = jmax_of gts d"
  then show "best_match gts d j" by (simp add: best_match_jmax)
qed

lemma ovmax_iou:
  assumes "gts \<noteq> []"
  shows "ovmax_of gts d = Some (iou d (gts ! jmax_of gts d))"
proof -
  let ?xs = "map (overlap d) gts"
  have ne: "?xs \<noteq> []" using assms by simp
  have "np_max ?xs = ?xs ! np_argmax ?xs" using np_argmax_spec(2) [OF ne] by simp
  also have "\<dots> = iou d (gts ! jmax_of gts d)"
    using jmax_of_less [OF assms, of d] by (simp add: jmax_of_def overlap_iou)
  finally show ?thesis using assms by (simp add: ovmax_of_def)
qed

lemma reaches_iff:
  "reaches gts t dets i j \<longleftrightarrow> above gts t dets i \<and> j = jmax_of gts (dets ! i)"
proof (cases "gts = []")
  case True
  then show ?thesis
    by (auto simp: reaches_def best_match_def dest: above_gt_nonempty)
next
  case False
  then show ?thesis
    by (auto simp: reaches_def best_match_iff above_def ovmax_iou exceeds_def)
qed

lemma first_claim_iff: "first_claim gts t dets i \<longleftrightarrow> is_true_positive gts t dets i"
proof
  assume fc: "first_claim gts t dets i"
  then have ab: "above gts t dets i" by (simp add: first_claim_def)
  then have "gts \<noteq> []" by (rule above_gt_nonempty)
  then have "jmax_of gts (dets ! i) < length gts" by (rule jmax_of_less)
  then show "is_true_positive gts t dets i"
    using fc unfolding is_true_positive_def first_claim_def reaches_iff
    by (intro bexI [of _ "jmax_of gts (dets ! i)"]) auto
next
  assume "is_true_positive gts t dets i"
  then show "first_claim gts t dets i"
    unfolding is_true_positive_def first_claim_def reaches_iff by auto
qed


lemma reaches_at_best:
  assumes "reaches gts t dets i j'" "best_match gts (dets ! i) j"
  shows "j' = j" "reaches gts t dets i j"
proof -
  from assms(1) have "best_match gts (dets ! i) j'" by (simp add: reaches_def)
  from best_match_unique [OF this assms(2)] show "j' = j" .
  with assms(1) show "reaches gts t dets i j" by simp
qed

lemmas matcher_eval_defs =
  tp_and_fp_of_detection_def match_loop_def ovmax_of_def jmax_of_def exceeds_def overlap_def
  np_argmax_def bx1_def by1_def bx2_def by2_def enumerate_eq_zip upt_conv_Cons Let_def

lemmas iou_eval_defs = iou_def incl_union_def incl_inter_def incl_area_def

subsection \<open>Greedy assignment\<close>

text \<open>
  Claim C1. For well-formed ground-truth and detection boxes (every union area is then at
  least 1, so every IoU is a proper quotient), processing the detections in order:
  a detection is a true positive exactly when the pixel-inclusive IoU with its best-matching
  ground-truth box (maximum IoU, the first on ties) strictly exceeds the threshold and no
  earlier detection reached that box above the threshold; every other detection is a false
  positive. A ground-truth box is found exactly when some detection reaches it. No box is
  the best match of two true positives, and a detection whose best match belongs to an
  earlier true positive is a false positive. At threshold 0.5: with ground truth
  \<open>[0,0,10,10]\<close> and two detections \<open>[0,0,10,10]\<close> the first is TP and the second FP; a
  detection with IoU exactly 1/2 is FP, one with IoU 1/11 is FP; \<open>[0,0,1,2]\<close> against
  \<open>[0,0,1,1]\<close> has IoU 2/3 by the inclusive convention and is TP; a detection whose best
  match is taken is FP although another box overlaps it with IoU 0.7.
\<close>

theorem matcher_first_claim_wins:
  assumes r: "tp_and_fp_of_detection im_gt im_det ovthresh = (found, im_tp, im_fp)"
    and wg: "\<forall>g\<in>set im_gt. well_formed g"
    and wd: "\<forall>d\<in>set im_det. well_formed d"
  shows "(\<forall>d\<in>set im_det. \<forall>g\<in>set im_gt. 1 \<le> incl_union d g) \<and>
         (\<forall>i<length im_det.
            im_tp ! i = (if is_true_positive im_gt ovthresh im_det i then 1 else 0) \<and>
            im_fp ! i = (if is_true_positive im_gt ovthresh im_det i then 0 else 1)) \<and>
         (\<forall>j<length im_gt.
            found ! j = (if \<exists>i\<in>{0..<length im_det}. reaches im_gt ovthresh im_det i j
                         then 1 else 0)) \<and>
         (\<forall>j<length im_gt. \<forall>i<length im_det. \<forall>k<length im_det.
            im_tp ! i = 1 \<and> im_tp ! k = 1 \<and>
            best_match im_gt (im_det ! i) j \<and> best_match im_gt (im_det ! k) j \<longrightarrow> i = k) \<and>
         (\<forall>j<length im_gt. \<forall>k<length im_det.
            best_match im_gt (im_det ! k) j \<and>
            (\<exists>i<k. im_tp ! i = 1 \<and> best_match im_gt (im_det ! i) j)
            \<longrightarrow> im_tp ! k = 0 \<and> im_fp ! k = 1) \<and>
         tp_and_fp_of_detection [(0, 0, 10, 10)] [(0, 0, 10, 10), (0, 0, 10, 10)] (1 / 2)
           = ([1], [1, 0], [0, 1]) \<and>
         iou (0, 0, 9, 4) (0, 0, 9, 9) = 1 / 2 \<and>
         tp_and_fp_of_detection [(0, 0, 9, 9)] [(0, 0, 9, 4)] (1 / 2) = ([0], [0], [1]) \<and>
         iou (0, 0, 10, 0) (0, 0, 10, 10) = 1 / 11 \<and>
         tp_and_fp_of_detection [(0, 0, 10, 10)] [(0, 0, 10, 0)] (1 / 2) = ([0], [0], [1]) \<and>
         iou (0, 0, 1, 2) (0, 0, 1, 1) = 2 / 3 \<and>
         tp_and_fp_of_detection [(0, 0, 1, 1)] [(0, 0, 1, 2)] (1 / 2) = ([1], [1], [0]) \<and>
         tp_and_fp_of_detection [(0, 0, 9, 9), (0, 0, 9, 5)] [(0, 0, 9, 5), (0, 0, 9, 6)] (1 / 2)
           = ([0, 1], [1, 0], [0, 1])"
proof -
  let ?tp = "is_true_positive im_gt ovthresh im_det"
  let ?bm = "\<lambda>i. best_match im_gt (im_det ! i)"
  let ?jm = "\<lambda>i. jmax_of im_gt (im_det ! i)"
  have tp: "im_tp = map (\<lambda>i. if ?tp i then 1 else 0) [0..<length im_det]"
    and fp: "im_fp = map (\<lambda>i. if \<not> ?tp i then 1 else 0) [0..<length im_det]"
    and fo: "found = map (\<lambda>j. if \<exists>i<length im_det. above im_gt ovthresh im_det i \<and> ?jm i = j
                then 1 else 0) [0..<length im_gt]"
    using r unfolding tp_and_fp_closed first_claim_iff by simp_all
  have u: "\<forall>d\<in>set im_det. \<forall>g\<in>set im_gt. 1 \<le> incl_union d g"
    using wg wd by (simp add: union_ge_one)
  have a: "\<forall>i<length im_det. im_tp ! i = (if ?tp i then 1 else 0) \<and> im_fp ! i = (if ?tp i then 0 else 1)"
    by (simp add: tp fp)
  have b: "\<forall>j<length im_gt. found ! j =
             (if \<exists>i\<in>{0..<length im_det}. reaches im_gt ovthresh im_det i j then 1 else 0)"
    by (auto simp: fo reaches_iff)
  have first: "\<not> ?tp k" if "?tp i" "?bm i j" "?bm k j" "i < k" for i k j
  proof
    assume "?tp k"
    then obtain j'' where k: "reaches im_gt ovthresh im_det k j''"
        "\<forall>m\<in>{0..<k}. \<not> reaches im_gt ovthresh im_det m j''"
      by (auto simp: is_true_positive_def)
    from that(1) obtain j' where "reaches im_gt ovthresh im_det i j'"
      by (auto simp: is_true_positive_def)
    then have ri: "reaches im_gt ovthresh im_det i j" using that(2) by (rule reaches_at_best)
    have "j'' = j" using k(1) that(3) by (rule reaches_at_best)
    with k(2) ri that(4) show False by auto
  qed
  have uniq: "i = k" if "?tp i" "?tp k" "?bm i j" "?bm k j" for i k j
  proof (rule ccontr)
    assume "i \<noteq> k"
    then consider "i < k" | "k < i" by linarith
    then show False
      using first [of i j k] first [of k j i] that by cases auto
  qed
  have c: "\<forall>j<length im_gt. \<forall>i<length im_det. \<forall>k<length im_det.
            im_tp ! i = 1 \<and> im_tp ! k = 1 \<and> ?bm i j \<and> ?bm k j \<longrightarrow> i = k"
    using a uniq by (auto split: if_splits)
  have d: "\<forall>j<length im_gt. \<forall>k<length im_det.
            ?bm k j \<and> (\<exists>i<k. im_tp ! i = 1 \<and> ?bm i j) \<longrightarrow> im_tp ! k = 0 \<and> im_fp ! k = 1"
  proof (intro allI impI)
    fix j k
    assume "j < length im_gt" and k: "k < length im_det"
      and h: "?bm k j \<and> (\<exists>i<k. im_tp ! i = 1 \<and> ?bm i j)"
    then obtain i where i: "i < k" "im_tp ! i = 1" "?bm i j" by blast
    then have "?tp i" using a k by (auto split: if_splits)
    then have "\<not> ?tp k" using i h first [of i j k] by auto
    then show "im_tp ! k = 0 \<and> im_fp ! k = 1" using a k by simp
  qed
  have e1: "tp_and_fp_of_detection [(0, 0, 10, 10)] [(0, 0, 10, 10), (0, 0, 10, 10)] (1 / 2)
           = ([1], [1, 0], [0, 1])"
    by (simp add: matcher_eval_defs)
  have e2: "iou (0, 0, 9, 4) (0, 0, 9, 9) = 1 / 2"
    "tp_and_fp_of_detection [(0, 0, 9, 9)] [(0, 0, 9, 4)] (1 / 2) = ([0], [0], [1])"
    by (simp_all add: matcher_eval_defs iou_eval_defs)
  have e3: "iou (0, 0, 10, 0) (0, 0, 10, 10) = 1 / 11"
    "tp_and_fp_of_detection [(0, 0, 10, 10)] [(0, 0, 10, 0)] (1 / 2) = ([0], [0], [1])"
    by (simp_all add: matcher_eval_defs iou_eval_defs)
  have e4: "iou (0, 0, 1, 2) (0, 0, 1, 1) = 2 / 3"
    "tp_and_fp_of_detection [(0, 0, 1, 1)] [(0, 0, 1, 2)] (1 / 2) = ([1], [1], [0])"
    by (simp_all add: matcher_eval_defs iou_eval_defs)
  have e5: "tp_and_fp_of_detection [(0, 0, 9, 9), (0, 0, 9, 5)] [(0, 0, 9, 5), (0, 0, 9, 6)] (1 / 2)
           = ([0, 1], [1, 0], [0, 1])"
    by (simp add: matcher_eval_defs)
  from u a b c d e1 e2 e3 e4 e5 show ?thesis by blast
qed

theorem matcher_first_claim_wins_witness:
  "well_formed (0, 0, 9, 9) \<and> well_formed (0, 0, 9, 5) \<and> well_formed (0, 0, 9, 6) \<and>
   tp_and_fp_of_detection [(0, 0, 9, 9), (0, 0, 9, 5)] [(0, 0, 9, 5), (0, 0, 9, 6)] (1 / 2)
     = ([0, 1], [1, 0], [0, 1]) \<and>
   is_true_positive [(0, 0, 9, 9), (0, 0, 9, 5)] (1 / 2) [(0, 0, 9, 5), (0, 0, 9, 6)] 0 \<and>
   \<not> is_true_positive [(0, 0, 9, 9), (0, 0, 9, 5)] (1 / 2) [(0, 0, 9, 5), (0, 0, 9, 6)] 1"
proof -
  let ?G = "[(0, 0, 9, 9), (0, 0, 9, 5)] :: box list"
  let ?D = "[(0, 0, 9, 5), (0, 0, 9, 6)] :: box list"
  have w: "well_formed (0, 0, 9, 9)" "well_formed (0, 0, 9, 5)" "well_formed (0, 0, 9, 6)"
    by (simp_all add: well_formed_def)
  have wg: "\<forall>g\<in>set ?G. well_formed g" and wd: "\<forall>d\<in>set ?D. well_formed d"
    using w by simp_all
  have e: "tp_and_fp_of_detection ?G ?D (1 / 2) = ([0, 1], [1, 0], [0, 1])"
    by (simp add: matcher_eval_defs)
  from matcher_first_claim_wins [OF e wg wd]
  have h: "\<forall>i<2. [1, 0::real] ! i = (if is_true_positive ?G (1 / 2) ?D i then 1 else 0)"
    by simp
  have "is_true_positive ?G (1 / 2) ?D 0"
    using h [rule_format, of 0] by (simp split: if_splits)
  moreover have "\<not> is_true_positive ?G (1 / 2) ?D 1"
    using h [rule_format, of 1] by (simp split: if_splits)
  ultimately show ?thesis using e w by simp
qed

subsection \<open>Empty inputs\<close>

text \<open>
  Claim C7. With an empty ground-truth array every detection is a false positive and none a
  true positive; with an empty detection array the TP and FP outputs are empty and no
  ground-truth box is marked found. The function is total: nothing is raised.
\<close>
theorem matcher_empty_inputs:
  "tp_and_fp_of_detection [] im_det ovthresh
     = ([], replicate (length im_det) 0, replicate (length im_det) 1) \<and>
   tp_and_fp_of_detection im_gt [] ovthresh = (replicate (length im_gt) 0, [], [])"
proof -
  have "\<not> first_claim [] ovthresh im_det i" for i
    using above_gt_nonempty [of "[]" ovthresh im_det i] by (auto simp: first_claim_def)
  then have "tp_and_fp_of_detection [] im_det ovthresh
     = ([], replicate (length im_det) 0, replicate (length im_det) 1)"
    by (simp add: tp_and_fp_closed map_replicate_const)
  moreover have "tp_and_fp_of_detection im_gt [] ovthresh = (replicate (length im_gt) 0, [], [])"
    by (simp add: tp_and_fp_of_detection_def match_loop_def)
  ultimately show ?thesis by simp
qed

subsection \<open>Flags are exclusive and exhaustive\<close>

text \<open>
  Claim C9. For each detection exactly one of \<open>im_tp[i]\<close> and \<open>im_fp[i]\<close> is 1 and the
  other is 0; the found flags are 0 or 1, and their sum, the number of claimed ground-truth
  boxes, equals the number of true positives.
\<close>
theorem matcher_flags_exclusive:
  assumes r: "tp_and_fp_of_detection im_gt im_det ovthresh = (found, im_tp, im_fp)"
  shows "length im_tp = length im_det \<and> length im_fp = length im_det \<and>
         length found = length im_gt \<and>
         (\<forall>i<length im_det.
            (im_tp ! i = 1 \<and> im_fp ! i = 0) \<or> (im_tp ! i = 0 \<and> im_fp ! i = 1)) \<and>
         (\<forall>j<length im_gt. found ! j = 0 \<or> found ! j = 1) \<and>
         sum_list found = sum_list im_tp \<and>
         sum_list found = real (length (filter (\<lambda>x. x = 1) found)) \<and>
         sum_list im_tp = real (length (filter (\<lambda>x. x = 1) im_tp))"
proof -
  let ?fc = "first_claim im_gt ovthresh im_det" and ?jm = "\<lambda>i. jmax_of im_gt (im_det ! i)"
  have tp: "im_tp = map (\<lambda>i. if ?fc i then 1 else 0) [0..<length im_det]"
    and fp: "im_fp = map (\<lambda>i. if \<not> ?fc i then 1 else 0) [0..<length im_det]"
    and fo: "found = map (\<lambda>j. if \<exists>i<length im_det. above im_gt ovthresh im_det i \<and> ?jm i = j
                then 1 else 0) [0..<length im_gt]"
    using r unfolding tp_and_fp_closed by simp_all
  have s: "sum_list found = sum_list im_tp"
    using match_loop_sums [of "length im_det" im_det "length im_det" im_gt ovthresh] r
    by (simp add: tp_and_fp_of_detection_def)
  have sf: "set found \<subseteq> {0, 1}" by (auto simp: fo)
  have st: "set im_tp \<subseteq> {0, 1}" by (auto simp: tp)
  have l: "length im_tp = length im_det" "length im_fp = length im_det" "length found = length im_gt"
    by (simp_all add: tp fp fo)
  have x: "\<forall>i<length im_det. (im_tp ! i = 1 \<and> im_fp ! i = 0) \<or> (im_tp ! i = 0 \<and> im_fp ! i = 1)"
    by (simp add: tp fp)
  have f01: "\<forall>j<length im_gt. found ! j = 0 \<or> found ! j = 1"
    by (simp add: fo)
  from l x f01 s sum_list_flags [OF sf] sum_list_flags [OF st] show ?thesis by blast
qed

theorem matcher_flags_exclusive_witness:
  "sum_list [1, 1::real] = sum_list [1, 0, 1, 0::real] \<and>
   tp_and_fp_of_detection [(0, 0, 10, 10), (20, 20, 30, 30)]
     [(0, 0, 10, 10), (0, 0, 10, 11), (20, 20, 30, 31), (100, 100, 101, 101)] (1 / 2)
     = ([1, 1], [1, 0, 1, 0], [0, 1, 0, 1])"
proof -
  have e: "tp_and_fp_of_detection [(0, 0, 10, 10), (20, 20, 30, 30)]
     [(0, 0, 10, 10), (0, 0, 10, 11), (20, 20, 30, 31), (100, 100, 101, 101)] (1 / 2)
     = ([1, 1], [1, 0, 1, 0], [0, 1, 0, 1])"
    by (simp add: tp_and_fp_of_detection_def match_loop_def ovmax_of_def jmax_of_def exceeds_def
          overlap_def np_argmax_def bx1_def by1_def bx2_def by2_def enumerate_eq_zip upt_conv_Cons Let_def)
  from matcher_flags_exclusive [OF e] have "sum_list [1, 1::real] = sum_list [1, 0, 1, 0::real]"
    by blast
  with e show ?thesis by simp
qed

section \<open>Geometry codec: round trip\<close>

lemma roundtrip_one:
  assumes "bx1 b < bx2 b" "by1 b < by2 b"
  shows "convert_state_to_box (convert_box_to_state [b]) = [b]"
proof -
  obtain x1 y1 x2 y2 where b: "b = (x1, y1, x2, y2)" by (cases b) auto
  define w where "w = x2 - x1"
  define h where "h = y2 - y1"
  have x2: "x2 = x1 + w" and y2: "y2 = y1 + h" by (simp_all add: w_def h_def)
  from assms have w: "0 < w" and h: "0 < h"
    by (simp_all add: b bx1_def bx2_def by1_def by2_def w_def h_def)
  show ?thesis
    using w h
    by (simp add: convert_state_to_box_def convert_box_to_state_def box_convert_xyxy_cxcywh_def
          box_area_def b bx1_def bx2_def by1_def by2_def Let_def x2 y2 field_simps)
qed

lemma convert_box_to_state_Cons:
  "convert_box_to_state (b # bs) = convert_box_to_state [b] @ convert_box_to_state bs"
  by (simp add: convert_box_to_state_def)

lemma convert_state_to_box_append:
  "convert_state_to_box (xs @ ys) = convert_state_to_box xs @ convert_state_to_box ys"
  by (simp add: convert_state_to_box_def)

text \<open>
  Claim C2. For boxes of positive width and height, decoding the encoded state gives the
  box back: over the reals \<open>convert_state_to_box (convert_box_to_state b) = b\<close> exactly, so
  that in the floating-point program the two differ by rounding only.
\<close>

theorem box_state_roundtrip:
  assumes "\<forall>b\<in>set boxes. bx1 b < bx2 b \<and> by1 b < by2 b"
  shows "convert_state_to_box (convert_box_to_state boxes) = boxes"
  using assms
proof (induction boxes)
  case Nil
  show ?case by (simp add: convert_state_to_box_def convert_box_to_state_def)
next
  case (Cons b bs)
  have "convert_state_to_box (convert_box_to_state (b # bs))
        = convert_state_to_box (convert_box_to_state [b]) @ convert_state_to_box (convert_box_to_state bs)"
    by (subst convert_box_to_state_Cons) (rule convert_state_to_box_append)
  also have "\<dots> = [b] @ bs" using Cons by (simp add: roundtrip_one)
  finally show ?case by simp
qed

theorem box_state_roundtrip_witness:
  "convert_state_to_box (convert_box_to_state [(0, 0, 10, 20), (3, 4, 5, 10)])
     = [(0, 0, 10, 20), (3, 4, 5, 10)]"
  using box_state_roundtrip [of "[(0, 0, 10, 20), (3, 4, 5, 10)]"]
  by (simp add: bx1_def bx2_def by1_def by2_def)

section \<open>\<open>freeze_at_mean\<close>\<close>

text \<open>
  Claim C3. The claim asks that a trajectory of length greater than 1, tensor or numpy
  array, comes back with the same length and every row equal to the mean row. On the numpy
  path the code tiles the whole trajectory instead of its mean: the two-row array
  \<open>[[0,0,1,1],[10,10,1,1]]\<close> comes back with four rows, none of them the mean
  \<open>[5,5,1,1]\<close>. The tensor path returns \<open>[[5,5,1,1],[5,5,1,1]]\<close>.
\<close>

theorem freeze_at_mean_ndarray_tiles:
  "freeze_at_mean (NdArray [[0, 0, 1, 1], [10, 10, 1, 1]])
     = NdArray [[0, 0, 1, 1], [10, 10, 1, 1], [0, 0, 1, 1], [10, 10, 1, 1]] \<and>
   length (rows (freeze_at_mean (NdArray [[0, 0, 1, 1], [10, 10, 1, 1]]))) = 4 \<and>
   freeze_at_mean (Tensor [[0, 0, 1, 1], [10, 10, 1, 1]])
     = Tensor [[5, 5, 1, 1], [5, 5, 1, 1]]"
  by (simp add: freeze_at_mean_def mean0_def numeral_2_eq_2 upt_conv_Cons)

lemma freeze_at_mean_tensor:
  "freeze_at_mean (Tensor rs) =
     (if length rs > 1 then Tensor (replicate (length rs) (mean0 rs)) else Tensor rs)"
  by (simp add: freeze_at_mean_def)

lemma freeze_at_mean_ndarray:
  "freeze_at_mean (NdArray rs) =
     (if length rs > 1 then NdArray (concat (replicate (length rs) rs)) else NdArray rs)"
  by (simp add: freeze_at_mean_def)

section \<open>The matrices of Variant A\<close>

text \<open>
  Claim C4, as the code has it. The process-noise covariance of the constructed filter is
  diagonal with 1 on the four position and shape components and 0.01, 0.01, 1e-4 on the
  three velocity components; the initial error covariance has 1000 on each velocity
  diagonal entry; the measurement noise is diagonal with 1, 1 for the centre coordinates
  and 10, 10 for area and ratio.
\<close>

theorem sort_filter_matrices:
  "processNoiseCov (kalman SORTKalmanFilter_init)
     = diag_matrix [1, 1, 1, 1, 1 / 100, 1 / 100, 1 / 10000] \<and>
   errorCovPre (kalman SORTKalmanFilter_init) ! 4 ! 4 = 1000 \<and>
   errorCovPre (kalman SORTKalmanFilter_init) ! 5 ! 5 = 1000 \<and>
   errorCovPre (kalman SORTKalmanFilter_init) ! 6 ! 6 = 1000 \<and>
   measurementNoiseCov (kalman SORTKalmanFilter_init) = diag_matrix [1, 1, 10, 10]"
  by (simp add: SORTKalmanFilter_init_def SORT_reset_def SORT_Q_def SORT_P_def SORT_R_def
        diag_matrix_def upt_conv_Cons power2_eq_square)

text \<open>
  Claim C4 as stated fails on the position components: the first diagonal entry of the
  process noise is 1, a hundred times the velocity entry 0.01, and not near zero even
  within a tolerance of 1/2.
\<close>

theorem sort_process_noise_not_near_zero:
  "\<not> near_zero_within (1 / 2) (processNoiseCov (kalman SORTKalmanFilter_init) ! 0 ! 0)"
  by (simp add: SORTKalmanFilter_init_def SORT_reset_def SORT_Q_def near_zero_within_def)

section \<open>\<open>KalmanFilter.smooth\<close>\<close>

lemma smooth_loop_closed:
  "smooth_loop kp kc t0 k ms =
     (state_after kp kc t0 k ms,
      map (\<lambda>i. vadd (take 4 (snd (kp (state_after kp kc t0 k (take i ms))))) t0) [0..<length ms])"
proof (induction ms arbitrary: k)
  case Nil
  show ?case by (simp add: state_after_def)
next
  case (Cons m ms)
  show ?case
    by (simp add: Cons.IH state_after_def map_upt_Suc Let_def split: prod.splits del: upt_Suc)
qed

text \<open>
  Claim C8. For a non-empty trajectory \<open>smooth\<close> returns a trajectory of the same length.
  Its \<open>i\<close>-th row is the first four entries of the prediction made from the filter state
  that has seen only the measurements before \<open>i\<close>, plus the trajectory's first row: the
  prediction before the \<open>i\<close>-th correction, not the corrected estimate. The filter is
  left in the state after all corrections.
\<close>

theorem smooth_prior_predictions:
  assumes "rows trajectory \<noteq> []"
  shows "\<exists>out. smooth kp kc k trajectory
                 = (state_after kp kc (hd (rows trajectory)) k (rows trajectory), Inr out) \<and>
               length (rows out) = length (rows trajectory) \<and>
               (\<forall>i<length (rows trajectory).
                  rows out ! i =
                    vadd (take 4 (snd (kp (state_after kp kc (hd (rows trajectory)) k
                                             (take i (rows trajectory))))))
                         (hd (rows trajectory)))"
proof -
  from assms obtain t0 rest where r: "rows trajectory = t0 # rest"
    by (cases "rows trajectory") auto
  have rs: "rows (same_kind trajectory xs) = xs" for xs by (cases trajectory) auto
  let ?out = "same_kind trajectory
     (map (\<lambda>i. vadd (take 4 (snd (kp (state_after kp kc t0 k (take i (t0 # rest)))))) t0)
        [0..<length (t0 # rest)])"
  have "smooth kp kc k trajectory = (state_after kp kc t0 k (t0 # rest), Inr ?out)"
    unfolding smooth_def r by (simp add: smooth_loop_closed del: smooth_loop.simps upt_Suc)
  moreover have "length (rows ?out) = length (rows trajectory)" by (simp add: rs r)
  moreover have "\<forall>i<length (rows trajectory). rows ?out ! i =
       vadd (take 4 (snd (kp (state_after kp kc t0 k (take i (rows trajectory)))))) t0"
    unfolding rs r by (simp del: upt_Suc)
  ultimately show ?thesis unfolding r by (intro exI [of _ ?out]) simp
qed


theorem smooth_prior_predictions_witness:
  "rows (NdArray [[1, 1, 1, 1], [2, 2, 2, 2], [4, 4, 4, 4]]) \<noteq> [] \<and>
   smooth (\<lambda>k. (k, k)) (\<lambda>k z. z) [0, 0, 0, 0] (NdArray [[1, 1, 1, 1], [2, 2, 2, 2], [4, 4, 4, 4]])
     = ([3, 3, 3, 3], Inr (NdArray [[1, 1, 1, 1], [1, 1, 1, 1], [2, 2, 2, 2]]))"
proof -
  let ?T = "NdArray [[1, 1, 1, 1], [2, 2, 2, 2], [4, 4, 4, 4]]"
  let ?kp = "\<lambda>k::real list. (k, k)" and ?kc = "\<lambda>(k::real list) (z::real list). z"
  have ne: "rows ?T \<noteq> []" by simp
  from smooth_prior_predictions [OF ne, of ?kp ?kc "[0, 0, 0, 0]"]
  obtain out where o: "smooth ?kp ?kc [0, 0, 0, 0] ?T
        = (state_after ?kp ?kc (hd (rows ?T)) [0, 0, 0, 0] (rows ?T), Inr out)"
    by blast
  have "smooth ?kp ?kc [0, 0, 0, 0] ?T
          = ([3, 3, 3, 3], Inr (NdArray [[1, 1, 1, 1], [1, 1, 1, 1], [2, 2, 2, 2]]))"
    by (simp add: smooth_def vadd_def vsub_def)
  with ne o show ?thesis by simp
qed

section \<open>\<open>obj_is_moving\<close>\<close>

lemma norm_first_two:
  assumes "length a = 4" "length b = 4"
  shows "np_linalg_norm (vsub (take 2 a) (take 2 b)) = sqrt ((a ! 0 - b ! 0)\<^sup>2 + (a ! 1 - b ! 1)\<^sup>2)"
proof -
  from assms obtain a0 a1 as where a: "a = a0 # a1 # as"
    by (cases a; cases "tl a") auto
  from assms obtain b0 b1 bs where b: "b = b0 # b1 # bs"
    by (cases b; cases "tl b") auto
  show ?thesis
    by (simp add: a b vsub_def np_linalg_norm_def power2_eq_square numeral_2_eq_2)
qed

lemma norm_self: "np_linalg_norm (vsub v v) = 0"
proof -
  have "map (\<lambda>x. x * x) (vsub v v) = replicate (length v) 0"
    by (induction v) (simp_all add: vsub_def)
  then show ?thesis by (simp add: np_linalg_norm_def sum_list_replicate)
qed

text \<open>
  Claim C5. With the default thresholds (5 pixels per second, 0.5 s) and 25 frames per
  second: a trajectory of at most 12 rows is moving whatever its displacement; one of at
  least 13 rows is moving exactly when the distance between its first and last centre,
  divided by its duration \<open>length / 25\<close>, strictly exceeds 5; with identical first and last
  centres it is not moving.
\<close>

theorem obj_is_moving_default:
  assumes "\<forall>r\<in>set (rows traj). length r = 4"
  shows "(length (rows traj) \<le> 12 \<longrightarrow> obj_is_moving traj 5 (1 / 2) = Inr True) \<and>
         (13 \<le> length (rows traj) \<longrightarrow>
            obj_is_moving traj 5 (1 / 2)
              = Inr (5 < center_distance traj / (real (length (rows traj)) * (1 / 25)))) \<and>
         (13 \<le> length (rows traj) \<and> take 2 (hd (rows traj)) = take 2 (last (rows traj)) \<longrightarrow>
            obj_is_moving traj 5 (1 / 2) = Inr False)"
proof (intro conjI impI)
  assume "length (rows traj) \<le> 12"
  then have "real (length (rows traj)) \<le> 12" by simp
  then show "obj_is_moving traj 5 (1 / 2) = Inr True"
    by (simp add: obj_is_moving_def Let_def)
next
  assume l: "13 \<le> length (rows traj)"
  then have ne: "rows traj \<noteq> []" by auto
  from l have "real (length (rows traj)) \<ge> 13" by simp
  then have g: "real (length (rows traj)) > (1 / 2) / (1 / 25)" by simp
  have "length (hd (rows traj)) = 4" "length (last (rows traj)) = 4"
    using assms ne by simp_all
  then have n: "np_linalg_norm (vsub (take 2 (hd (rows traj))) (take 2 (last (rows traj))))
      = center_distance traj"
    by (simp add: norm_first_two center_distance_def Let_def)
  show "obj_is_moving traj 5 (1 / 2)
          = Inr (5 < center_distance traj / (real (length (rows traj)) * (1 / 25)))"
    unfolding obj_is_moving_def Let_def using g ne n by simp
next
  assume "13 \<le> length (rows traj) \<and> take 2 (hd (rows traj)) = take 2 (last (rows traj))"
  then have l: "13 \<le> length (rows traj)"
    and eq: "take 2 (hd (rows traj)) = take 2 (last (rows traj))" by simp_all
  from l have ne: "rows traj \<noteq> []" by auto
  from l have "real (length (rows traj)) \<ge> 13" by simp
  then have g: "real (length (rows traj)) > (1 / 2) / (1 / 25)" by simp
  show "obj_is_moving traj 5 (1 / 2) = Inr False"
    unfolding obj_is_moving_def Let_def using g ne by (simp add: eq norm_self)
qed

theorem obj_is_moving_default_witness:
  "obj_is_moving (NdArray ([0, 0, 1, 1] # replicate 11 [50, 50, 1, 1])) 5 (1 / 2) = Inr True \<and>
   obj_is_moving (NdArray ([0, 0, 1, 1] # replicate 12 [0, 0, 1, 1])) 5 (1 / 2) = Inr False \<and>
   obj_is_moving (NdArray ([0, 0, 1, 1] # replicate 12 [3, 4, 1, 1])) 5 (1 / 2) = Inr True"
proof -
  have a: "obj_is_moving (NdArray ([0, 0, 1, 1] # replicate 11 [50, 50, 1, 1])) 5 (1 / 2) = Inr True"
    using obj_is_moving_default [of "NdArray ([0, 0, 1, 1] # replicate 11 [50, 50, 1, 1])"]
    by simp
  have b: "obj_is_moving (NdArray ([0, 0, 1, 1] # replicate 12 [0, 0, 1, 1])) 5 (1 / 2) = Inr False"
    using obj_is_moving_default [of "NdArray ([0, 0, 1, 1] # replicate 12 [0, 0, 1, 1])"]
    by (simp add: center_distance_def Let_def)
  have "center_distance (NdArray ([0, 0, 1, 1] # replicate 12 [3, 4, 1, 1])) = 5"
    by (simp add: center_distance_def Let_def)
  then have c: "obj_is_moving (NdArray ([0, 0, 1, 1] # replicate 12 [3, 4, 1, 1])) 5 (1 / 2) = Inr True"
    using obj_is_moving_default [of "NdArray ([0, 0, 1, 1] # replicate 12 [3, 4, 1, 1])"]
    by simp
  from a b c show ?thesis by simp
qed

section \<open>The metric aggregator without detections\<close>

lemma count_flat_empty:
  "\<forall>im\<in>set tp. flag_values im = [] \<Longrightarrow> count_flat tp = 0"
  unfolding count_flat_def
  by (induction tp) (simp_all add: shape0_def)

lemma assign_slice_empty: "assign_slice [] i 0 [] = Inr []"
  by (simp add: assign_slice_def)

lemma fill_flat_empty:
  "\<forall>p\<in>set ps. flag_values (fst p) = [] \<and> flag_values (snd p) = [] \<Longrightarrow>
   fill_flat ps i [] [] = Inr ([], [])"
proof (induction ps arbitrary: i)
  case Nil
  show ?case by simp
next
  case (Cons p ps)
  obtain t f where p: "p = (t, f)" by (cases p) auto
  from Cons.prems have e: "flag_values t = []" "flag_values f = []" by (simp_all add: p)
  from Cons have r: "fill_flat ps j [] [] = Inr ([], [])" for j by simp
  show ?case by (simp add: p e shape0_def assign_slice_empty r)
qed

text \<open>
  Claim C6. When every slot of \<open>tp\<close> and of \<open>fp\<close> is the empty list or an empty array, so
  that the flattened arrays are empty, \<open>detection_metrics_from_tp_and_fp\<close> returns
  AP = 0.0, Prec = 0.0, Rec = 0.0, TP = 0, FP = 0 and raises nothing, for every \<open>npos\<close>,
  zero included: the early return comes before the division by \<open>npos\<close>.
\<close>

theorem metrics_of_no_detections:
  assumes "\<forall>im\<in>set tp. flag_values im = []" and "\<forall>im\<in>set fp. flag_values im = []"
  shows "detection_metrics_from_tp_and_fp tp fp npos = Inr zero_metrics \<and>
         AP zero_metrics = PyFloat 0 \<and> Prec zero_metrics = PyFloat 0 \<and>
         Rec zero_metrics = PyFloat 0 \<and> TP zero_metrics = PyInt 0 \<and> FP zero_metrics = PyInt 0"
proof -
  have "\<forall>p\<in>set (zip tp fp). flag_values (fst p) = [] \<and> flag_values (snd p) = []"
    using assms by (auto dest: set_zip_leftD set_zip_rightD)
  then have "fill_flat (zip tp fp) 0 [] [] = Inr ([], [])" by (rule fill_flat_empty)
  then have "detection_metrics_from_tp_and_fp tp fp npos = Inr zero_metrics"
    by (simp add: detection_metrics_from_tp_and_fp_def count_flat_empty [OF assms(1)]
          np_cumsum_def zero_metrics_def)
  then show ?thesis by (simp add: zero_metrics_def)
qed

theorem metrics_of_no_detections_witness:
  "detection_metrics_from_tp_and_fp [NoDetections, Flags [], NoDetections]
     [NoDetections, Flags [], NoDetections] 0 = Inr zero_metrics"
  using metrics_of_no_detections [of "[NoDetections, Flags [], NoDetections]"
      "[NoDetections, Flags [], NoDetections]" 0]
  by simp

section \<open>The evaluation loops\<close>












end
